theory Spec2Isabelle
  imports Main
begin

section \<open>Python strings\<close>

text \<open>
  A Python \<open>str\<close> is a sequence of Unicode code points, and \<open>len\<close>, indexing and
  slicing count code points. A string is therefore a list of natural numbers; an
  ASCII literal is written \<open>ustr ''abc''\<close>.
\<close>

type_synonym codepoint = nat
type_synonym pystr = "codepoint list"

definition ustr :: "string \<Rightarrow> pystr" where
  "ustr cs = map of_char cs"

text \<open>
  The methods \<open>str.isalpha\<close>, \<open>str.lower\<close>, \<open>str.upper\<close> and the whitespace test
  behind \<open>str.strip\<close> are table lookups in the Unicode character database of the
  interpreter. The program is modelled over an arbitrary database, so that a theorem
  about every database is a theorem about the interpreter's one:
  \<^item> \<open>isalpha U c\<close>: \<open>ch.isalpha()\<close> for the one-character string \<open>ch = [c]\<close>;
  \<^item> \<open>isspace U c\<close>: \<open>c\<close> is removed by \<open>strip()\<close> and \<open>rstrip()\<close>;
  \<^item> \<open>upper_ch U c\<close>: the full upper-case mapping of \<open>c\<close>, which may be several code
    points; \<open>str.upper\<close> maps every code point on its own;
  \<^item> \<open>lower_str U s\<close>: \<open>s.lower()\<close> of a whole string (the lower-case mapping of a
    code point may depend on its neighbours, so this is a function of the string).
\<close>

record unicode_db =
  isalpha :: "codepoint \<Rightarrow> bool"
  isspace :: "codepoint \<Rightarrow> bool"
  upper_ch :: "codepoint \<Rightarrow> pystr"
  lower_str :: "pystr \<Rightarrow> pystr"

definition str_isalpha :: "unicode_db \<Rightarrow> pystr \<Rightarrow> bool" where
  \<comment> \<open>\<open>s.isalpha()\<close>: non-empty and every code point alphabetic.\<close>
  "str_isalpha U s = (s \<noteq> [] \<and> list_all (isalpha U) s)"

definition str_upper :: "unicode_db \<Rightarrow> pystr \<Rightarrow> pystr" where
  \<comment> \<open>\<open>s.upper()\<close>\<close>
  "str_upper U s = concat (map (upper_ch U) s)"

definition rstrip :: "unicode_db \<Rightarrow> pystr \<Rightarrow> pystr" where
  \<comment> \<open>\<open>s.rstrip()\<close>\<close>
  "rstrip U s = rev (dropWhile (isspace U) (rev s))"

definition strip :: "unicode_db \<Rightarrow> pystr \<Rightarrow> pystr" where
  \<comment> \<open>\<open>s.strip()\<close>\<close>
  "strip U s = rstrip U (dropWhile (isspace U) s)"

definition or_empty :: "pystr option \<Rightarrow> pystr" where
  \<comment> \<open>\<open>(x or "")\<close>: \<open>None\<close> and the empty string both give the empty string.\<close>
  "or_empty x = (case x of None \<Rightarrow> [] | Some s \<Rightarrow> s)"

definition startswith :: "pystr \<Rightarrow> pystr \<Rightarrow> bool" where
  "startswith s p = (take (length p) s = p)"

definition endswith :: "pystr \<Rightarrow> pystr \<Rightarrow> bool" where
  "endswith s suf = (length suf \<le> length s \<and> drop (length s - length suf) s = suf)"

fun contains :: "pystr \<Rightarrow> pystr \<Rightarrow> bool" where
  \<comment> \<open>\<open>sub in s\<close> for strings: \<open>sub\<close> occurs in \<open>s\<close> as a contiguous run.\<close>
  "contains sub [] = (sub = [])"
| "contains sub (c # cs) = (startswith (c # cs) sub \<or> contains sub cs)"

subsection \<open>Exceptions and checked indexing\<close>

datatype py_error = IndexError

definition getitem :: "'a list \<Rightarrow> nat \<Rightarrow> py_error + 'a" where
  \<comment> \<open>\<open>xs[i]\<close> for \<open>i \<ge> 0\<close>\<close>
  "getitem xs i = (if i < length xs then Inr (xs ! i) else Inl IndexError)"

definition setitem :: "'a list \<Rightarrow> nat \<Rightarrow> 'a \<Rightarrow> py_error + 'a list" where
  \<comment> \<open>\<open>xs[i] = v\<close> for \<open>i \<ge> 0\<close>\<close>
  "setitem xs i v = (if i < length xs then Inr (xs[i := v]) else Inl IndexError)"

definition getitem_end :: "pystr \<Rightarrow> nat \<Rightarrow> py_error + pystr" where
  \<comment> \<open>\<open>s[-k]\<close> for \<open>k \<ge> 1\<close>: the one-character string at distance \<open>k\<close> from the end.\<close>
  "getitem_end s k =
     (if 1 \<le> k \<and> k \<le> length s then Inr [s ! (length s - k)] else Inl IndexError)"

section \<open>Text helpers\<close>

subsection \<open>\<open>to_sentence_case\<close>\<close>

definition clause_marks :: "pystr list" where
  \<comment> \<open>the tuple \<open>('.', '!', '?', ':')\<close>\<close>
  "clause_marks = [ustr ''.'', ustr ''!'', ustr ''?'', ustr '':'']"

definition lower_alpha :: "unicode_db \<Rightarrow> pystr \<Rightarrow> pystr" where
  \<comment> \<open>\<open>''.join(ch.lower() if ch.isalpha() else ch for ch in s)\<close>\<close>
  "lower_alpha U s =
     concat (map (\<lambda>c. if str_isalpha U [c] then lower_str U [c] else [c]) s)"

text \<open>
  The \<open>while i < n\<close> loop. \<open>chars\<close> is the list of one-character strings
  \<open>list(lowered)\<close>; the loop overwrites a slot with \<open>ch.upper()\<close>, which may be longer
  than one character.
\<close>

function sentence_loop ::
  "unicode_db \<Rightarrow> pystr list \<Rightarrow> nat \<Rightarrow> bool \<Rightarrow> nat \<Rightarrow> py_error + pystr list" where
  "sentence_loop U chars n cap_next i =
     (if i < n then
        (case getitem chars i of
           Inl e \<Rightarrow> Inl e
         | Inr ch \<Rightarrow>
             if cap_next \<and> str_isalpha U ch then
               (case setitem chars i (str_upper U ch) of
                  Inl e \<Rightarrow> Inl e
                | Inr chars' \<Rightarrow> sentence_loop U chars' n False (i + 1))
             else if ch \<in> set clause_marks then sentence_loop U chars n True (i + 1)
             else sentence_loop U chars n cap_next (i + 1))
      else Inr chars)"
  by pat_completeness auto
termination
  by (relation "measure (\<lambda>(U, chars, n, cap_next, i). n - i)") auto

definition to_sentence_case :: "unicode_db \<Rightarrow> pystr option \<Rightarrow> py_error + pystr" where
  "to_sentence_case U text =
     (let s = or_empty text;
          lowered = lower_alpha U s;
          chars = map (\<lambda>c. [c]) lowered;
          n = length chars
      in case sentence_loop U chars n True 0 of
           Inl e \<Rightarrow> Inl e
         | Inr chars' \<Rightarrow> Inr (concat chars'))"

subsection \<open>\<open>ensure_terminal_period\<close>\<close>

definition terminal :: "pystr list" where
  \<comment> \<open>the set \<open>{'.', '!', '?'}\<close>\<close>
  "terminal = [ustr ''.'', ustr ''!'', ustr ''?'']"

text \<open>
  The set literal \<open>closing_quotes\<close> of the source file has four members: the two
  straight quotes, and two strings of three code points each, U+201A U+00C4 U+00F9
  and U+201A U+00C4 U+00F4 (the bytes of the right double and right single curly
  quote, read in another encoding).
\<close>

definition closing_quotes :: "pystr list" where
  "closing_quotes = [[34], [39], [8218, 196, 249], [8218, 196, 244]]"

definition ensure_terminal_period :: "unicode_db \<Rightarrow> pystr option \<Rightarrow> py_error + pystr" where
  "ensure_terminal_period U s0 =
     (let s = rstrip U (or_empty s0) in
      if s = [] then Inr s
      else
        (case getitem_end s 1 of
           Inl e \<Rightarrow> Inl e
         | Inr last_ch \<Rightarrow>
             if last_ch \<in> set terminal then Inr s
             else if last_ch \<in> set closing_quotes then
               \<comment> \<open>\<open>len(s) >= 2 and s[-2] in terminal\<close>: the index is read only when
                   the length test holds\<close>
               (case (if 2 \<le> length s
                      then (case getitem_end s 2 of
                              Inl e \<Rightarrow> Inl e
                            | Inr before \<Rightarrow> Inr (before \<in> set terminal))
                      else Inr False) of
                  Inl e \<Rightarrow> Inl e
                | Inr quoted_end \<Rightarrow>
                    if quoted_end then Inr s
                    else Inr (take (length s - 1) s @ ustr ''.'' @ last_ch))
             else Inr (s @ ustr ''.'')))"

section \<open>Renderers\<close>

text \<open>
  The output document is the list of paragraphs appended to it. A paragraph carries its
  text, its style name (\<open>None\<close> for the default style), the emphasis of its run and
  the indent written by \<open>_set_xml_indent\<close> (left and hanging, in twips); \<open>kind\<close>
  records which renderer appended it. Typeface, size and spacing are the same
  constants on every paragraph and are left out.
\<close>

datatype block_kind = Heading | Subheading | Bullet | SubBullet | Spacer

record out_paragraph =
  kind :: block_kind
  par_text :: pystr
  par_style :: "pystr option"
  bold :: "bool option"
  underline :: "bool option"
  indent_twips :: "(nat \<times> nat) option"

definition add_visible_blank_line :: "out_paragraph list \<Rightarrow> out_paragraph list" where
  \<comment> \<open>\<open>doc.add_paragraph\<close> of the one-character string U+00A0, a no-break space\<close>
  "add_visible_blank_line doc =
     doc @ [\<lparr>kind = Spacer, par_text = [160], par_style = None, bold = None,
             underline = None, indent_twips = None\<rparr>]"

definition add_heading :: "unicode_db \<Rightarrow> out_paragraph list \<Rightarrow> pystr option \<Rightarrow> out_paragraph list" where
  "add_heading U out text =
     add_visible_blank_line
       (out @ [\<lparr>kind = Heading, par_text = str_upper U (or_empty text), par_style = None,
                bold = Some True, underline = Some True, indent_twips = None\<rparr>])"

definition add_subheading_all_caps ::
  "unicode_db \<Rightarrow> out_paragraph list \<Rightarrow> pystr option \<Rightarrow> out_paragraph list" where
  "add_subheading_all_caps U out text =
     add_visible_blank_line
       (out @ [\<lparr>kind = Subheading, par_text = str_upper U (or_empty text), par_style = None,
                bold = Some False, underline = Some True, indent_twips = None\<rparr>])"

definition add_bullet ::
  "unicode_db \<Rightarrow> out_paragraph list \<Rightarrow> pystr option \<Rightarrow> bool \<Rightarrow> bool \<Rightarrow> py_error + out_paragraph list" where
  "add_bullet U out text indent add_period =
     (case to_sentence_case U text of
        Inl e \<Rightarrow> Inl e
      | Inr formatted0 \<Rightarrow>
          (case (if add_period then ensure_terminal_period U (Some formatted0)
                 else Inr formatted0) of
             Inl e \<Rightarrow> Inl e
           | Inr formatted \<Rightarrow>
               (let style_name = (if indent then ustr ''List Bullet 2'' else ustr ''List Bullet'')
                in Inr (add_visible_blank_line
                     (out @ [\<lparr>kind = Bullet, par_text = formatted,
                              par_style = Some style_name, bold = None, underline = None,
                              indent_twips = None\<rparr>])))))"

definition add_h5_bullet ::
  "unicode_db \<Rightarrow> out_paragraph list \<Rightarrow> pystr option \<Rightarrow> py_error + out_paragraph list" where
  "add_h5_bullet U out text =
     (case to_sentence_case U text of
        Inl e \<Rightarrow> Inl e
      | Inr cased \<Rightarrow>
          (case ensure_terminal_period U (Some cased) of
             Inl e \<Rightarrow> Inl e
           | Inr formatted \<Rightarrow>
               Inr (add_visible_blank_line
                 (out @ [\<lparr>kind = SubBullet, par_text = formatted,
                          par_style = Some (ustr ''H5Subbullet''), bold = None,
                          underline = None, indent_twips = Some (1080, 360)\<rparr>]))))"

section \<open>Heading classification\<close>

definition guess_heading_level :: "unicode_db \<Rightarrow> pystr option \<Rightarrow> pystr option \<Rightarrow> int" where
  "guess_heading_level U style_name text =
     (let style = strip U (lower_str U (or_empty style_name));
          t = strip U (or_empty text)
      in if t = [] then 0
         else if contains (ustr ''heading 2'') style \<or> style = ustr ''h2'' then 1
         else if contains (ustr ''heading 3'') style \<or> style = ustr ''h3'' then 2
         else if contains (ustr ''heading 4'') style \<or> style = ustr ''h4'' then 3
         else if contains (ustr ''heading 5'') style \<or> style = ustr ''h5'' then 4
         else 0)"

section \<open>Core transform\<close>

text \<open>
  A source paragraph is what the loop reads of it: \<open>para.text\<close> and the name of its
  style, \<open>getattr(para.style, "name", "")\<close>, which may be \<open>None\<close>.
\<close>

record source_paragraph =
  text_of :: pystr
  style_name_of :: "pystr option"

record counts =
  H2 :: int
  H3 :: int
  H4 :: int
  H5 :: int

fun transform_loop ::
  "unicode_db \<Rightarrow> bool \<Rightarrow> source_paragraph list \<Rightarrow> out_paragraph list \<Rightarrow> counts
     \<Rightarrow> py_error + (out_paragraph list \<times> counts)" where
  "transform_loop U add_period_to_h4 [] out cnt = Inr (out, cnt)"
| "transform_loop U add_period_to_h4 (para # rest) out cnt =
     (let text = strip U (or_empty (Some (text_of para))) in
      if text = [] then transform_loop U add_period_to_h4 rest out cnt
      else
        (let level = guess_heading_level U (style_name_of para) (Some text) in
         if level = 1 then
           transform_loop U add_period_to_h4 rest
             (add_heading U out (Some text)) (cnt\<lparr>H2 := H2 cnt + 1\<rparr>)
         else if level = 2 then
           transform_loop U add_period_to_h4 rest
             (add_subheading_all_caps U out (Some text)) (cnt\<lparr>H3 := H3 cnt + 1\<rparr>)
         else if level = 3 then
           (case add_bullet U out (Some text) True add_period_to_h4 of
              Inl e \<Rightarrow> Inl e
            | Inr out' \<Rightarrow>
                transform_loop U add_period_to_h4 rest out' (cnt\<lparr>H4 := H4 cnt + 1\<rparr>))
         else if level = 4 then
           (case add_h5_bullet U out (Some text) of
              Inl e \<Rightarrow> Inl e
            | Inr out' \<Rightarrow>
                transform_loop U add_period_to_h4 rest out' (cnt\<lparr>H5 := H5 cnt + 1\<rparr>))
         else transform_loop U add_period_to_h4 rest out cnt))"

definition transform_docx ::
  "unicode_db \<Rightarrow> source_paragraph list \<Rightarrow> bool \<Rightarrow> py_error + (out_paragraph list \<times> counts)" where
  \<comment> \<open>\<open>Document()\<close> starts without paragraphs.\<close>
  "transform_docx U src add_period_to_h4 =
     transform_loop U add_period_to_h4 src [] \<lparr>H2 = 0, H3 = 0, H4 = 0, H5 = 0\<rparr>"

definition rendered_blocks :: "out_paragraph list \<Rightarrow> out_paragraph list" where
  \<comment> \<open>the paragraphs of the output that are not spacer lines\<close>
  "rendered_blocks out = filter (\<lambda>p. kind p \<noteq> Spacer) out"

definition counts_total :: "counts \<Rightarrow> int" where
  \<comment> \<open>\<open>sum(counts.values())\<close>\<close>
  "counts_total cnt = H2 cnt + H3 cnt + H4 cnt + H5 cnt"

section \<open>Output file name\<close>

definition rfind :: "pystr \<Rightarrow> codepoint \<Rightarrow> int" where
  \<comment> \<open>\<open>p.rfind(c)\<close> for a one-character string: the last index of \<open>c\<close>, or \<open>-1\<close>.\<close>
  "rfind p c =
     (case filter (\<lambda>i. p ! i = c) (rev [0 ..< length p]) of
        [] \<Rightarrow> - 1
      | i # _ \<Rightarrow> int i)"

definition splitext_root :: "pystr \<Rightarrow> pystr" where
  \<comment> \<open>\<open>os.path.splitext(p)[0]\<close> of the standard library, with the separator \<open>/\<close>: the name
      is cut at its last dot when that dot lies after the last separator and after a
      character of the file name that is not a dot.\<close>
  "splitext_root p =
     (let sepIndex = rfind p 47;
          dotIndex = rfind p 46
      in if dotIndex > sepIndex
            \<and> list_ex (\<lambda>c. c \<noteq> 46)
                (take (nat (dotIndex - (sepIndex + 1))) (drop (nat (sepIndex + 1)) p))
         then take (nat dotIndex) p
         else p)"

definition out_name :: "unicode_db \<Rightarrow> pystr \<Rightarrow> pystr" where
  "out_name U uploaded_name =
     (let base_name = rstrip U (splitext_root uploaded_name) in
      if endswith (str_upper U base_name) (ustr ''INPUT'')
      then take (length base_name - 5) base_name @ ustr ''OUTPUT.docx''
      else base_name @ ustr ''_OUTPUT.docx'')"

section \<open>The character tables of the interpreter, in part\<close>

text \<open>
  For evaluation on concrete inputs, \<open>py_db\<close> gives the tables of CPython 3 (Unicode
  14) on the code points 0 to 255 and on U+0178, U+039C and U+03BC, where the upper
  case of U+00FF and U+00B5 lands. The whitespace test is the complete one. Every
  other code point is taken as a non-letter without case, which is what it is for
  the punctuation above U+00FF used below (the curly quotes U+2018 to U+201F);
  letters outside the range are not covered by \<open>py_db\<close>. \<open>s.lower()\<close> maps code
  point by code point on this range.
\<close>

definition py_isalpha :: "codepoint \<Rightarrow> bool" where
  "py_isalpha c =
     ((65 \<le> c \<and> c \<le> 90) \<or> (97 \<le> c \<and> c \<le> 122) \<or> c = 170 \<or> c = 181 \<or> c = 186
      \<or> (192 \<le> c \<and> c \<le> 214) \<or> (216 \<le> c \<and> c \<le> 246) \<or> (248 \<le> c \<and> c \<le> 255)
      \<or> c = 376 \<or> c = 924 \<or> c = 956)"

definition py_isspace :: "codepoint \<Rightarrow> bool" where
  "py_isspace c =
     ((9 \<le> c \<and> c \<le> 13) \<or> (28 \<le> c \<and> c \<le> 32) \<or> c = 133 \<or> c = 160 \<or> c = 5760
      \<or> (8192 \<le> c \<and> c \<le> 8202) \<or> c = 8232 \<or> c = 8233 \<or> c = 8239 \<or> c = 8287
      \<or> c = 12288)"

definition py_upper_ch :: "codepoint \<Rightarrow> pystr" where
  "py_upper_ch c =
     (if 97 \<le> c \<and> c \<le> 122 then [c - 32]
      else if c = 181 then [924]
      else if c = 223 then [83, 83]
      else if (224 \<le> c \<and> c \<le> 246) \<or> (248 \<le> c \<and> c \<le> 254) then [c - 32]
      else if c = 255 then [376]
      else if c = 956 then [924]
      else [c])"

definition py_lower_ch :: "codepoint \<Rightarrow> pystr" where
  "py_lower_ch c =
     (if 65 \<le> c \<and> c \<le> 90 then [c + 32]
      else if (192 \<le> c \<and> c \<le> 214) \<or> (216 \<le> c \<and> c \<le> 222) then [c + 32]
      else if c = 376 then [255]
      else if c = 924 then [956]
      else [c])"

definition py_db :: unicode_db where
  "py_db = \<lparr>isalpha = py_isalpha, isspace = py_isspace, upper_ch = py_upper_ch,
            lower_str = (\<lambda>s. concat (map py_lower_ch s))\<rparr>"

section \<open>Reference definitions\<close>

text \<open>
  The definitions of this section are not code of the program. They say, in the
  words of its description, what the loops and branch chains above compute, and the
  theorems below compare the two.
\<close>

subsection \<open>Sentence case as a flag automaton\<close>

text \<open>
  A capitalisation flag starts true; an alphabetic character read while the flag is
  set is replaced by its upper case and clears the flag; a clause mark sets it; any
  other character leaves it as it is. The result has one slot per character read.
\<close>

fun flag_walk :: "unicode_db \<Rightarrow> bool \<Rightarrow> pystr \<Rightarrow> pystr list" where
  "flag_walk U cap [] = []"
| "flag_walk U cap (c # cs) =
     (if cap \<and> isalpha U c then upper_ch U c # flag_walk U False cs
      else if [c] \<in> set clause_marks then [c] # flag_walk U True cs
      else [c] # flag_walk U cap cs)"

definition sentence_start :: "unicode_db \<Rightarrow> pystr \<Rightarrow> bool" where
  \<comment> \<open>\<open>pre\<close> has no alphabetic character after its last clause mark (anywhere, when it
      has no clause mark): a letter that follows \<open>pre\<close> is the first one of the string
      or the first one after a clause mark.\<close>
  "sentence_start U pre =
     list_all (\<lambda>c. \<not> isalpha U c) (takeWhile (\<lambda>c. [c] \<notin> set clause_marks) (rev pre))"

definition simple_case :: "unicode_db \<Rightarrow> codepoint \<Rightarrow> bool" where
  \<comment> \<open>the lower case of the letter \<open>c\<close> is one letter \<open>l\<close>, which is its own lower case,
      and the upper case of \<open>l\<close> is one letter, whose lower case is \<open>l\<close> again\<close>
  "simple_case U c =
     (case lower_str U [c] of
        [l] \<Rightarrow> isalpha U l \<and> lower_str U [l] = [l] \<and>
          (case upper_ch U l of
             [u] \<Rightarrow> isalpha U u \<and> lower_str U [u] = [l]
           | _ \<Rightarrow> False)
      | _ \<Rightarrow> False)"

definition same_up_to_case :: "unicode_db \<Rightarrow> codepoint \<Rightarrow> codepoint \<Rightarrow> bool" where
  \<comment> \<open>\<open>x\<close> is \<open>c\<close> itself when \<open>c\<close> is not a letter, and the lower-case form of \<open>c\<close> or
      the upper case of that form when it is\<close>
  "same_up_to_case U c x =
     (if isalpha U c
      then [x] = lower_str U [c] \<or> [x] = str_upper U (lower_str U [c])
      else x = c)"

definition single_case :: "unicode_db \<Rightarrow> codepoint \<Rightarrow> bool" where
  \<comment> \<open>the lower case of \<open>c\<close> is one character, and so is the upper case of that\<close>
  "single_case U c =
     (length (lower_str U [c]) = 1 \<and> length (str_upper U (lower_str U [c])) = 1)"

definition settled :: "unicode_db \<Rightarrow> codepoint \<Rightarrow> bool" where
  \<comment> \<open>a letter \<open>x\<close> that is its own lower case and whose upper case is one letter
      that lower-cases back to \<open>x\<close>\<close>
  "settled U x =
     (isalpha U x \<longrightarrow> lower_str U [x] = [x] \<and>
        (\<exists>u. upper_ch U x = [u] \<and> isalpha U u \<and> lower_str U [u] = [x]))"

subsection \<open>Terminal period\<close>

definition period_with :: "pystr list \<Rightarrow> pystr \<Rightarrow> pystr" where
  \<comment> \<open>the rule for a string \<open>t\<close> already trimmed on the right, for a given set of
      closing quotes\<close>
  "period_with quotes t =
     (if t = [] then []
      else if [last t] \<in> set terminal then t
      else if [last t] \<in> set quotes then
        (if 2 \<le> length t \<and> [t ! (length t - 2)] \<in> set terminal then t
         else butlast t @ ustr ''.'' @ [last t])
      else t @ ustr ''.'')"

definition spec_closing_quotes :: "pystr list" where
  \<comment> \<open>straight double and single quote, right double quote U+201D, right single quote
      U+2019\<close>
  "spec_closing_quotes = [[34], [39], [8221], [8217]]"

definition spec_ensureTerminalPeriod :: "unicode_db \<Rightarrow> pystr \<Rightarrow> pystr" where
  "spec_ensureTerminalPeriod U s = period_with spec_closing_quotes (rstrip U s)"

subsection \<open>Classification by a rule table\<close>

definition heading_rules :: "(pystr \<times> pystr \<times> int) list" where
  \<comment> \<open>marker to be contained, short name to be equal to, level; in priority order\<close>
  "heading_rules =
     [(ustr ''heading 2'', ustr ''h2'', 1), (ustr ''heading 3'', ustr ''h3'', 2),
      (ustr ''heading 4'', ustr ''h4'', 3), (ustr ''heading 5'', ustr ''h5'', 4)]"

definition first_rule :: "pystr \<Rightarrow> int" where
  \<comment> \<open>the level of the first rule that the label \<open>l\<close> satisfies, 0 when there is none\<close>
  "first_rule l =
     (case find (\<lambda>(marker, short, level). contains marker l \<or> l = short) heading_rules of
        None \<Rightarrow> 0
      | Some (marker, short, level) \<Rightarrow> level)"

definition spec_classify :: "unicode_db \<Rightarrow> pystr \<Rightarrow> pystr \<Rightarrow> int" where
  \<comment> \<open>the label is lower-cased and matched as it is\<close>
  "spec_classify U styleLabel text =
     (if strip U text = [] then 0 else first_rule (lower_str U styleLabel))"

subsection \<open>Counted paragraphs and the worked example\<close>

definition classifiable :: "unicode_db \<Rightarrow> source_paragraph \<Rightarrow> bool" where
  \<comment> \<open>the trimmed text is not empty and the classification is not 0 (none)\<close>
  "classifiable U p =
     (strip U (text_of p) \<noteq> []
      \<and> guess_heading_level U (style_name_of p) (Some (text_of p)) \<noteq> 0)"

definition example_paragraphs :: "source_paragraph list" where
  "example_paragraphs =
     [\<lparr>text_of = ustr ''INTRO'', style_name_of = Some (ustr ''Heading 2'')\<rparr>,
      \<lparr>text_of = ustr '''', style_name_of = Some (ustr ''Heading 3'')\<rparr>,
      \<lparr>text_of = ustr ''point one'', style_name_of = Some (ustr ''Heading 4'')\<rparr>,
      \<lparr>text_of = ustr ''sub point'', style_name_of = Some (ustr ''Heading 5'')\<rparr>]"

section \<open>Properties of the string primitives\<close>

lemma ustr_dot [simp]: "ustr ''.'' = [46]"
  by (simp add: ustr_def)

lemma in_terminal [simp]: "[c] \<in> set terminal \<longleftrightarrow> c = 46 \<or> c = 33 \<or> c = 63"
  by (simp add: terminal_def ustr_def)

lemma in_closing_quotes [simp]: "[c] \<in> set closing_quotes \<longleftrightarrow> c = 34 \<or> c = 39"
  by (simp add: closing_quotes_def)

lemma in_spec_closing_quotes [simp]:
  "[c] \<in> set spec_closing_quotes \<longleftrightarrow> c = 34 \<or> c = 39 \<or> c = 8221 \<or> c = 8217"
  by (simp add: spec_closing_quotes_def)

lemma in_clause_marks [simp]:
  "[c] \<in> set clause_marks \<longleftrightarrow> c = 46 \<or> c = 33 \<or> c = 63 \<or> c = 58"
  by (simp add: clause_marks_def ustr_def)

lemma str_isalpha_single [simp]: "str_isalpha U [c] = isalpha U c"
  by (simp add: str_isalpha_def)

lemma str_upper_single [simp]: "str_upper U [c] = upper_ch U c"
  by (simp add: str_upper_def)

lemma getitem_mid [simp]: "getitem (pre @ x # post) (length pre) = Inr x"
  by (simp add: getitem_def)

lemma setitem_mid [simp]: "setitem (pre @ x # post) (length pre) v = Inr (pre @ v # post)"
  by (simp add: setitem_def)

lemma or_empty_simps [simp]: "or_empty None = []" "or_empty (Some s) = s"
  by (simp_all add: or_empty_def)

section \<open>The sentence-case loop\<close>

text \<open>
  The index loop, started at position \<open>length pre\<close> on slots that are still single
  characters, leaves the slots before the position alone and fills the others as the
  flag automaton does. It never leaves the list: no read or write raises.
\<close>

lemma sentence_loop_walk:
  "sentence_loop U (pre @ map (\<lambda>c. [c]) cs) (length pre + length cs) cap (length pre)
     = Inr (pre @ flag_walk U cap cs)"
proof (induction cs arbitrary: pre cap)
  case Nil
  show ?case by (subst sentence_loop.simps) simp
next
  case (Cons c cs)
  have step: "\<And>p b. sentence_loop U ((pre @ [p]) @ map (\<lambda>c. [c]) cs)
        (length pre + length (c # cs)) b (length pre + 1)
      = Inr ((pre @ [p]) @ flag_walk U b cs)"
    using Cons.IH [of "pre @ [p]" for p] by simp
  show ?case
    by (subst sentence_loop.simps) (use step in simp)
qed

lemma to_sentence_case_walk:
  "to_sentence_case U text = Inr (concat (flag_walk U True (lower_alpha U (or_empty text))))"
  using sentence_loop_walk [of U "[]" "lower_alpha U (or_empty text)" True]
  by (simp add: to_sentence_case_def)

section \<open>The terminal period\<close>

lemma ensure_terminal_period_eq:
  "ensure_terminal_period U s0 = Inr (period_with closing_quotes (rstrip U (or_empty s0)))"
proof (cases "rstrip U (or_empty s0) = []")
  case True
  then show ?thesis
    by (simp add: ensure_terminal_period_def period_with_def)
next
  case False
  then have "1 \<le> length (rstrip U (or_empty s0))"
    by (simp add: Suc_le_eq)
  with False show ?thesis
    by (simp add: ensure_terminal_period_def period_with_def getitem_end_def Let_def
        last_conv_nth butlast_conv_take)
qed

lemma period_with_ends:
  assumes "t \<noteq> []"
  shows "period_with closing_quotes t \<noteq> [] \<and>
     ([last (period_with closing_quotes t)] \<in> set terminal \<or>
      ([last (period_with closing_quotes t)] \<in> set closing_quotes
       \<and> 2 \<le> length (period_with closing_quotes t)
       \<and> [period_with closing_quotes t ! (length (period_with closing_quotes t) - 2)]
            \<in> set terminal))"
proof -
  have a: "(butlast t @ [46, last t]) ! (length (butlast t @ [46, last t]) - 2) = 46"
    by (simp add: nth_append)
  show ?thesis using assms a
    by (auto simp add: period_with_def simp del: length_butlast)
qed

lemma py_db_fields [simp]:
  "isalpha py_db = py_isalpha" "isspace py_db = py_isspace"
  "upper_ch py_db = py_upper_ch" "lower_str py_db s = concat (map py_lower_ch s)"
  by (simp_all add: py_db_def)

lemma ensure_terminal_period_examples:
  "ensure_terminal_period py_db (Some (ustr '''')) = Inr (ustr '''')"
  "ensure_terminal_period py_db (Some (ustr ''done'')) = Inr (ustr ''done.'')"
  "ensure_terminal_period py_db (Some (ustr ''done.'')) = Inr (ustr ''done.'')"
  "ensure_terminal_period py_db (Some (ustr ''He said \"stop\"''))
     = Inr (ustr ''He said \"stop.\"'')"
  "ensure_terminal_period py_db (Some (ustr ''Already done.\"''))
     = Inr (ustr ''Already done.\"'')"
  by (simp_all add: ensure_terminal_period_eq period_with_def rstrip_def py_isspace_def
      ustr_def)

text \<open>
  Where the trimmed string does not end in a curly closing quote, the function
  returns what the described rule returns.
\<close>

lemma ensure_terminal_period_agrees:
  "[last (rstrip U s)] \<notin> set [[8221], [8217]] \<Longrightarrow>
   ensure_terminal_period U (Some s) = Inr (spec_ensureTerminalPeriod U s)"
  by (simp add: ensure_terminal_period_eq spec_ensureTerminalPeriod_def period_with_def)

text \<open>
  Claim C3. \<open>ensureTerminalPeriod\<close> trims on the right, returns the empty string for
  an empty result, leaves a string that ends in \<open>.\<close>, \<open>!\<close> or \<open>?\<close> alone, puts a period
  before a trailing closing quote, straight or curly, unless a terminator is already
  there, and appends a period otherwise. The function does so for the straight quotes
  (\<open>ensure_terminal_period_examples\<close>, \<open>ensure_terminal_period_agrees\<close>). For a string
  that ends in the curly quote U+201D it does not: the two curly members of its set
  of closing quotes are strings of three code points, which no single last character
  equals, so the period goes after the quote, where the described rule puts it before.
\<close>

theorem ensure_terminal_period_curly_quote:
  "ensure_terminal_period py_db (Some (ustr ''He said '' @ [8220] @ ustr ''stop'' @ [8221]))
     = Inr (ustr ''He said '' @ [8220] @ ustr ''stop'' @ [8221] @ ustr ''.'')
   \<and> spec_ensureTerminalPeriod py_db (ustr ''He said '' @ [8220] @ ustr ''stop'' @ [8221])
     = ustr ''He said '' @ [8220] @ ustr ''stop.'' @ [8221]"
  by (simp add: ensure_terminal_period_eq spec_ensureTerminalPeriod_def period_with_def
      rstrip_def py_isspace_def ustr_def)

text \<open>
  Claim C7. \<open>ensure_terminal_period\<close> raises on no input. When the trimmed string has
  length one, reading its second-to-last character would raise \<open>IndexError\<close>; the
  function does not read it and returns the character itself when it is a
  terminator, a period followed by the character when it is a closing quote, and the
  character followed by a period otherwise.
\<close>

theorem ensure_terminal_period_short:
  "(\<exists>r. ensure_terminal_period U s = Inr r) \<and>
   (length (rstrip U (or_empty s)) = 1 \<longrightarrow>
      getitem_end (rstrip U (or_empty s)) 2 = Inl IndexError \<and>
      ensure_terminal_period U s =
        Inr (let t = rstrip U (or_empty s)
             in if t \<in> set terminal then t
                else if t \<in> set closing_quotes then ustr ''.'' @ t
                else t @ ustr ''.''))"
proof -
  have one: "ensure_terminal_period U s =
        Inr (let t = rstrip U (or_empty s)
             in if t \<in> set terminal then t
                else if t \<in> set closing_quotes then ustr ''.'' @ t
                else t @ ustr ''.'')"
    if "length (rstrip U (or_empty s)) = 1"
  proof -
    from that obtain c where t: "rstrip U (or_empty s) = [c]"
      by (cases "rstrip U (or_empty s)") auto
    show ?thesis
      by (simp add: ensure_terminal_period_eq t period_with_def)
  qed
  show ?thesis
    using one by (simp add: ensure_terminal_period_eq getitem_end_def)
qed

theorem ensure_terminal_period_short_witness:
  "length (rstrip py_db (or_empty (Some [34, 32]))) = 1
   \<and> ensure_terminal_period py_db (Some [34, 32]) = Inr [46, 34]
   \<and> ensure_terminal_period py_db (Some [46]) = Inr [46]"
  using ensure_terminal_period_short [of py_db "Some [34, 32]"]
    ensure_terminal_period_short [of py_db "Some [46]"]
  by (simp add: rstrip_def py_isspace_def)

text \<open>
  Claim C10. When the trimmed input is not empty, the result of
  \<open>ensure_terminal_period\<close> ends in \<open>.\<close>, \<open>!\<close> or \<open>?\<close>, or in a closing quote that
  directly follows one of them.
\<close>

theorem ensure_terminal_period_ends:
  "rstrip U (or_empty s) \<noteq> [] \<Longrightarrow>
   \<exists>r. ensure_terminal_period U s = Inr r \<and> r \<noteq> [] \<and>
     ([last r] \<in> set terminal \<or>
      ([last r] \<in> set closing_quotes \<and> 2 \<le> length r
       \<and> [r ! (length r - 2)] \<in> set terminal))"
  using period_with_ends [of "rstrip U (or_empty s)"]
  by (simp only: ensure_terminal_period_eq sum.inject simp_thms)

theorem ensure_terminal_period_ends_witness:
  "rstrip py_db (or_empty (Some (ustr ''stop\" ''))) \<noteq> [] \<and>
   ensure_terminal_period py_db (Some (ustr ''stop\" '')) = Inr (ustr ''stop.\"'')"
  using ensure_terminal_period_ends [of py_db "Some (ustr ''stop\" '')"]
  by (simp add: ensure_terminal_period_eq period_with_def rstrip_def py_isspace_def ustr_def)

section \<open>The transform\<close>

lemma ustr_Nil_iff [simp]: "ustr s = [] \<longleftrightarrow> s = []"
  by (simp add: ustr_def)

lemma rstrip_idem [simp]: "rstrip U (rstrip U s) = rstrip U s"
  by (simp add: rstrip_def)

lemma rstrip_Cons_nonspace: "\<not> isspace U x \<Longrightarrow> rstrip U (x # xs) = x # rstrip U xs"
  by (simp add: rstrip_def dropWhile_append)

lemma dropWhile_rstrip:
  "dropWhile (isspace U) (rstrip U (dropWhile (isspace U) s)) = rstrip U (dropWhile (isspace U) s)"
proof (cases "dropWhile (isspace U) s")
  case Nil
  then show ?thesis by (simp only: rstrip_def rev.simps dropWhile.simps)
next
  case (Cons x xs)
  then have "\<not> isspace U x"
    by (metis hd_dropWhile list.sel(1) list.distinct(1))
  with Cons show ?thesis
    by (simp add: rstrip_Cons_nonspace)
qed

lemma strip_idem [simp]: "strip U (strip U s) = strip U s"
  by (simp add: strip_def dropWhile_rstrip)

lemma guess_heading_level_strip [simp]:
  "guess_heading_level U sn (Some (strip U t)) = guess_heading_level U sn (Some t)"
  by (simp add: guess_heading_level_def)

lemma guess_heading_level_range:
  "guess_heading_level U sn t \<in> {0, 1, 2, 3, 4}"
  by (simp add: guess_heading_level_def Let_def)

lemma guess_heading_level_empty [simp]:
  "strip U t = [] \<Longrightarrow> guess_heading_level U sn (Some t) = 0"
  by (simp add: guess_heading_level_def)

lemma add_bullet_eq:
  "add_bullet U out text indent add_period =
     Inr (out @ [\<lparr>kind = Bullet,
                  par_text = (let cased = concat (flag_walk U True (lower_alpha U (or_empty text)))
                              in if add_period then period_with closing_quotes (rstrip U cased)
                                 else cased),
                  par_style = Some (if indent then ustr ''List Bullet 2'' else ustr ''List Bullet''),
                  bold = None, underline = None, indent_twips = None\<rparr>,
                \<lparr>kind = Spacer, par_text = [160], par_style = None, bold = None,
                  underline = None, indent_twips = None\<rparr>])"
  by (simp add: add_bullet_def to_sentence_case_walk ensure_terminal_period_eq
      add_visible_blank_line_def Let_def)

lemma add_h5_bullet_eq:
  "add_h5_bullet U out text =
     Inr (out @ [\<lparr>kind = SubBullet,
                  par_text = period_with closing_quotes
                    (rstrip U (concat (flag_walk U True (lower_alpha U (or_empty text))))),
                  par_style = Some (ustr ''H5Subbullet''),
                  bold = None, underline = None, indent_twips = Some (1080, 360)\<rparr>,
                \<lparr>kind = Spacer, par_text = [160], par_style = None, bold = None,
                  underline = None, indent_twips = None\<rparr>])"
  by (simp add: add_h5_bullet_def to_sentence_case_walk ensure_terminal_period_eq
      add_visible_blank_line_def)

lemma transform_loop_counts:
  "\<exists>out' cnt'. transform_loop U ap src out cnt = Inr (out', cnt')
     \<and> counts_total cnt' = counts_total cnt + int (length (filter (classifiable U) src))
     \<and> length (rendered_blocks out')
         = length (rendered_blocks out) + length (filter (classifiable U) src)"
proof (induction src arbitrary: out cnt)
  case Nil
  show ?case by simp
next
  case (Cons p src)
  let ?t = "strip U (text_of p)"
  let ?l = "guess_heading_level U (style_name_of p) (Some (text_of p))"
  let ?n = "length (filter (classifiable U) src)"
  have step: "\<exists>out' cnt'. transform_loop U ap (p # src) out cnt = Inr (out', cnt')
       \<and> counts_total cnt' = counts_total cnt + int (Suc ?n)
       \<and> length (rendered_blocks out') = length (rendered_blocks out) + Suc ?n"
    if run: "transform_loop U ap (p # src) out cnt = transform_loop U ap src out1 cnt1"
      and c: "counts_total cnt1 = counts_total cnt + 1"
      and b: "length (rendered_blocks out1) = length (rendered_blocks out) + 1"
    for out1 cnt1
  proof -
    from Cons.IH [of out1 cnt1] obtain out' cnt' where
      "transform_loop U ap src out1 cnt1 = Inr (out', cnt')"
      "counts_total cnt' = counts_total cnt1 + int ?n"
      "length (rendered_blocks out') = length (rendered_blocks out1) + ?n"
      by blast
    with run c b show ?thesis by simp
  qed
  have "?l \<in> {0, 1, 2, 3, 4}" by (rule guess_heading_level_range)
  then consider (skip) "?t = [] \<or> ?l = 0" | (h2) "?t \<noteq> []" "?l = 1" | (h3) "?t \<noteq> []" "?l = 2"
    | (h4) "?t \<noteq> []" "?l = 3" | (h5) "?t \<noteq> []" "?l = 4"
    by auto
  then show ?case
  proof cases
    case skip
    then have "\<not> classifiable U p" "transform_loop U ap (p # src) out cnt = transform_loop U ap src out cnt"
      by (auto simp add: classifiable_def Let_def)
    then show ?thesis using Cons.IH [of out cnt] by simp
  next
    case h2
    then have cl: "classifiable U p" by (simp add: classifiable_def)
    show ?thesis
      using step [of "add_heading U out (Some ?t)" "cnt\<lparr>H2 := H2 cnt + 1\<rparr>"] h2 cl
      by (simp add: Let_def counts_total_def rendered_blocks_def add_heading_def
          add_visible_blank_line_def)
  next
    case h3
    then have cl: "classifiable U p" by (simp add: classifiable_def)
    show ?thesis
      using step [of "add_subheading_all_caps U out (Some ?t)" "cnt\<lparr>H3 := H3 cnt + 1\<rparr>"] h3 cl
      by (simp add: Let_def counts_total_def rendered_blocks_def add_subheading_all_caps_def
          add_visible_blank_line_def)
  next
    case h4
    then have cl: "classifiable U p" by (simp add: classifiable_def)
    obtain out1 where o: "add_bullet U out (Some ?t) True ap = Inr out1"
      "length (rendered_blocks out1) = length (rendered_blocks out) + 1"
      by (simp add: add_bullet_eq rendered_blocks_def)
    show ?thesis
      using step [of out1 "cnt\<lparr>H4 := H4 cnt + 1\<rparr>"] h4 cl o
      by (simp add: Let_def counts_total_def)
  next
    case h5
    then have cl: "classifiable U p" by (simp add: classifiable_def)
    obtain out1 where o: "add_h5_bullet U out (Some ?t) = Inr out1"
      "length (rendered_blocks out1) = length (rendered_blocks out) + 1"
      by (simp add: add_h5_bullet_eq rendered_blocks_def)
    show ?thesis
      using step [of out1 "cnt\<lparr>H5 := H5 cnt + 1\<rparr>"] h5 cl o
      by (simp add: Let_def counts_total_def)
  qed
qed

text \<open>
  Claim C2. For every paragraph sequence and either value of the flag, the transform
  returns (it raises nothing), the four counts add up to the number of rendered
  blocks, and that number is the number of source paragraphs whose trimmed text is
  not empty and whose classification is not none.
\<close>

theorem transform_docx_counts:
  "\<exists>out cnt. transform_docx U src ap = Inr (out, cnt)
     \<and> counts_total cnt = int (length (rendered_blocks out))
     \<and> length (rendered_blocks out) = length (filter (classifiable U) src)"
  using transform_loop_counts [of U ap src "[]" "\<lparr>H2 = 0, H3 = 0, H4 = 0, H5 = 0\<rparr>"]
  by (auto simp add: transform_docx_def counts_total_def rendered_blocks_def)

lemma sentence_case_point_one:
  "to_sentence_case py_db (Some (ustr ''point one'')) = Inr (ustr ''Point one'')"
  by (simp add: to_sentence_case_walk lower_alpha_def ustr_def py_isalpha_def py_lower_ch_def
      py_upper_ch_def)

lemma sentence_case_sub_point:
  "to_sentence_case py_db (Some (ustr ''sub point'')) = Inr (ustr ''Sub point'')"
  by (simp add: to_sentence_case_walk lower_alpha_def ustr_def py_isalpha_def py_lower_ch_def
      py_upper_ch_def)

lemma period_point_one:
  "ensure_terminal_period py_db (Some (ustr ''Point one'')) = Inr (ustr ''Point one.'')"
  by (simp add: ensure_terminal_period_eq period_with_def rstrip_def py_isspace_def ustr_def)

lemma period_sub_point:
  "ensure_terminal_period py_db (Some (ustr ''Sub point'')) = Inr (ustr ''Sub point.'')"
  by (simp add: ensure_terminal_period_eq period_with_def rstrip_def py_isspace_def ustr_def)

lemma example_strip:
  "strip py_db (ustr ''INTRO'') = ustr ''INTRO''"
  "strip py_db (ustr '''') = []"
  "strip py_db (ustr ''point one'') = ustr ''point one''"
  "strip py_db (ustr ''sub point'') = ustr ''sub point''"
  by (simp_all add: strip_def rstrip_def py_isspace_def ustr_def)

lemma example_levels:
  "guess_heading_level py_db (Some (ustr ''Heading 2'')) (Some (ustr ''INTRO'')) = 1"
  "guess_heading_level py_db (Some (ustr ''Heading 4'')) (Some (ustr ''point one'')) = 3"
  "guess_heading_level py_db (Some (ustr ''Heading 5'')) (Some (ustr ''sub point'')) = 4"
  by (simp_all add: guess_heading_level_def example_strip Let_def)
     (simp_all add: strip_def rstrip_def py_isspace_def ustr_def py_lower_ch_def startswith_def)

lemma example_upper: "str_upper py_db (ustr ''INTRO'') = ustr ''INTRO''"
  by (simp add: str_upper_def py_upper_ch_def ustr_def)

lemma example_output:
  "transform_docx py_db example_paragraphs True =
     Inr ([\<lparr>kind = Heading, par_text = ustr ''INTRO'', par_style = None,
             bold = Some True, underline = Some True, indent_twips = None\<rparr>,
           \<lparr>kind = Spacer, par_text = [160], par_style = None, bold = None,
             underline = None, indent_twips = None\<rparr>,
           \<lparr>kind = Bullet, par_text = ustr ''Point one.'',
             par_style = Some (ustr ''List Bullet 2''), bold = None, underline = None,
             indent_twips = None\<rparr>,
           \<lparr>kind = Spacer, par_text = [160], par_style = None, bold = None,
             underline = None, indent_twips = None\<rparr>,
           \<lparr>kind = SubBullet, par_text = ustr ''Sub point.'',
             par_style = Some (ustr ''H5Subbullet''), bold = None, underline = None,
             indent_twips = Some (1080, 360)\<rparr>,
           \<lparr>kind = Spacer, par_text = [160], par_style = None, bold = None,
             underline = None, indent_twips = None\<rparr>],
          \<lparr>H2 = 1, H3 = 0, H4 = 1, H5 = 1\<rparr>)"
  by (simp add: transform_docx_def example_paragraphs_def example_strip example_levels Let_def
      add_heading_def add_bullet_def add_h5_bullet_def add_visible_blank_line_def
      sentence_case_point_one sentence_case_sub_point period_point_one period_sub_point
      example_upper)


text \<open>
  The counts of the worked example, obtained from the general statement.
\<close>

theorem transform_docx_counts_witness:
  "\<exists>out cnt. transform_docx py_db example_paragraphs True = Inr (out, cnt)
     \<and> counts_total cnt = 3 \<and> length (rendered_blocks out) = 3
     \<and> length (filter (classifiable py_db) example_paragraphs) = 3"
  using transform_docx_counts [of py_db example_paragraphs True]
  by (simp add: example_output rendered_blocks_def counts_total_def)

text \<open>
  Claim C1. On the four paragraphs INTRO (Heading 2), the empty text (Heading 3),
  point one (Heading 4) and sub point (Heading 5), with the period flag set, the
  transform returns the counts H2 = 1, H3 = 0, H4 = 1, H5 = 1 and three rendered
  blocks in source order: the heading INTRO, the bullet "Point one." and the
  sub-bullet "Sub point." with the nested indent.
\<close>

theorem transform_docx_example:
  "case transform_docx py_db example_paragraphs True of
     Inl e \<Rightarrow> False
   | Inr (out, cnt) \<Rightarrow>
       cnt = \<lparr>H2 = 1, H3 = 0, H4 = 1, H5 = 1\<rparr>
       \<and> map (\<lambda>p. (kind p, par_text p, indent_twips p)) (rendered_blocks out)
           = [(Heading, ustr ''INTRO'', None),
              (Bullet, ustr ''Point one.'', None),
              (SubBullet, ustr ''Sub point.'', Some (1080, 360))]"
  by (simp add: example_output rendered_blocks_def)

section \<open>Sentence case\<close>

lemma lower_alpha_Nil [simp]: "lower_alpha U [] = []"
  by (simp add: lower_alpha_def)

lemma lower_alpha_Cons:
  "lower_alpha U (c # s) = (if isalpha U c then lower_str U [c] else [c]) @ lower_alpha U s"
  by (simp add: lower_alpha_def)

lemma lower_alpha_append [simp]:
  "lower_alpha U (xs @ ys) = lower_alpha U xs @ lower_alpha U ys"
  by (simp add: lower_alpha_def)

lemma lower_alpha_flag_walk:
  "\<forall>x\<in>set xs. settled U x \<Longrightarrow> lower_alpha U (concat (flag_walk U cap xs)) = xs"
proof (induction xs arbitrary: cap)
  case Nil
  show ?case by simp
next
  case (Cons x xs)
  then have x: "settled U x" and rest: "\<And>b. lower_alpha U (concat (flag_walk U b xs)) = xs"
    by simp_all
  show ?case
  proof (cases "cap \<and> isalpha U x")
    case True
    with x obtain u where "upper_ch U x = [u]" "isalpha U u" "lower_str U [u] = [x]"
      by (auto simp add: settled_def)
    with True rest show ?thesis
      by (simp add: lower_alpha_Cons)
  next
    case False
    with x rest show ?thesis
      by (auto simp add: lower_alpha_Cons settled_def)
  qed
qed

lemma simple_caseD:
  assumes "simple_case U c"
  obtains l u where "lower_str U [c] = [l]" "isalpha U l" "lower_str U [l] = [l]"
    "upper_ch U l = [u]" "isalpha U u" "lower_str U [u] = [l]"
  using assms
  by (auto simp add: simple_case_def split: list.splits)

lemma settled_lower_alpha:
  "\<forall>c\<in>set s. isalpha U c \<longrightarrow> simple_case U c \<Longrightarrow> \<forall>x\<in>set (lower_alpha U s). settled U x"
proof (induction s)
  case Nil
  show ?case by simp
next
  case (Cons c s)
  show ?case
  proof (cases "isalpha U c")
    case True
    with Cons.prems have "simple_case U c" by simp
    then obtain l u where "lower_str U [c] = [l]" "isalpha U l" "lower_str U [l] = [l]"
      "upper_ch U l = [u]" "isalpha U u" "lower_str U [u] = [l]"
      by (rule simple_caseD)
    with True Cons show ?thesis
      by (simp add: lower_alpha_Cons settled_def)
  next
    case False
    with Cons show ?thesis
      by (simp add: lower_alpha_Cons settled_def)
  qed
qed

lemma ascii_simple_case: "c < 128 \<Longrightarrow> py_isalpha c \<Longrightarrow> simple_case py_db c"
  by (auto simp add: simple_case_def py_isalpha_def py_lower_ch_def py_upper_ch_def)

lemma sentence_case_eszett:
  "to_sentence_case py_db (Some [223]) = Inr [83, 83]"
  "to_sentence_case py_db (Some [83, 83]) = Inr [83, 115]"
  by (simp_all add: to_sentence_case_walk lower_alpha_def py_isalpha_def py_lower_ch_def
      py_upper_ch_def)

text \<open>
  Claim C5, amended. \<open>to_sentence_case\<close> applied twice gives what it gives applied
  once, for every string whose letters have a one-letter lower case that is its own
  lower case and whose upper case is one letter that lower-cases back to it (every
  ASCII letter does, by \<open>ascii_simple_case\<close> below). It is not so for every string.
\<close>

theorem to_sentence_case_idempotent:
  assumes "\<forall>c\<in>set s. isalpha U c \<longrightarrow> simple_case U c"
  shows "\<exists>r. to_sentence_case U (Some s) = Inr r \<and> to_sentence_case U (Some r) = Inr r"
  using lower_alpha_flag_walk [OF settled_lower_alpha [OF assms], of True]
  by (simp add: to_sentence_case_walk)

theorem to_sentence_case_idempotent_witness:
  "to_sentence_case py_db (Some (ustr ''a b: c'')) = Inr (ustr ''A b: C'')
   \<and> to_sentence_case py_db (Some (ustr ''A b: C'')) = Inr (ustr ''A b: C'')"
proof -
  have h: "\<forall>c\<in>set (ustr ''a b: c''). isalpha py_db c \<longrightarrow> simple_case py_db c"
    by (simp add: ustr_def ascii_simple_case)
  have v: "to_sentence_case py_db (Some (ustr ''a b: c'')) = Inr (ustr ''A b: C'')"
    by (simp add: to_sentence_case_walk lower_alpha_def py_isalpha_def py_lower_ch_def
      py_upper_ch_def ustr_def)
  from to_sentence_case_idempotent [OF h] v h show ?thesis by simp
qed

text \<open>
  The claim as stated fails at the one-character string U+00DF (sharp s), a letter
  whose upper case is the two letters SS: the first pass gives SS, the second Ss.
\<close>

theorem to_sentence_case_not_idempotent:
  "to_sentence_case py_db (Some [223]) = Inr [83, 83]
   \<and> to_sentence_case py_db (Some [83, 83]) \<noteq> Inr [83, 83]"
  by (simp add: sentence_case_eszett)

lemma flag_walk_Cons:
  "\<exists>b. flag_walk U cap (x # xs) =
     (if cap \<and> isalpha U x then upper_ch U x else [x]) # flag_walk U b xs"
  by (auto simp del: in_clause_marks)

lemma same_case_walk:
  "\<forall>c\<in>set s. isalpha U c \<longrightarrow> single_case U c \<Longrightarrow>
   list_all2 (same_up_to_case U) s (concat (flag_walk U cap (lower_alpha U s)))"
proof (induction s arbitrary: cap)
  case Nil
  show ?case by simp
next
  case (Cons c s)
  then have rest: "\<And>b. list_all2 (same_up_to_case U) s (concat (flag_walk U b (lower_alpha U s)))"
    by simp
  show ?case
  proof (cases "isalpha U c")
    case True
    with Cons.prems have "single_case U c" by simp
    then obtain l u where lu: "lower_str U [c] = [l]" "upper_ch U l = [u]"
      by (auto simp add: single_case_def length_Suc_conv)
    obtain b where b: "flag_walk U cap (l # lower_alpha U s) =
        (if cap \<and> isalpha U l then upper_ch U l else [l]) # flag_walk U b (lower_alpha U s)"
      using flag_walk_Cons by blast
    have hd: "same_up_to_case U c l" "same_up_to_case U c u"
      using True lu by (simp_all add: same_up_to_case_def)
    show ?thesis
      using True lu hd rest [of b]
      by (simp add: lower_alpha_Cons b del: flag_walk.simps)
  next
    case False
    obtain b where b: "flag_walk U cap (c # lower_alpha U s) = [c] # flag_walk U b (lower_alpha U s)"
      using flag_walk_Cons [of U cap c "lower_alpha U s"] False by auto
    have hd: "same_up_to_case U c c"
      using False by (simp add: same_up_to_case_def)
    show ?thesis
      using False hd rest [of b]
      by (simp add: lower_alpha_Cons b del: flag_walk.simps)
  qed
qed

text \<open>
  Claim C9, amended. \<open>None\<close> gives the empty string. For a string whose letters have
  a one-character lower case with a one-character upper case, the result has the
  length of the input, every non-letter stays where and what it is, and every letter
  becomes its lower-case form or the upper case of that form. It is not so for every
  string.
\<close>

theorem to_sentence_case_same_length:
  "to_sentence_case U None = Inr [] \<and>
   ((\<forall>c\<in>set s. isalpha U c \<longrightarrow> single_case U c) \<longrightarrow>
    (\<exists>r. to_sentence_case U (Some s) = Inr r \<and> length r = length s
       \<and> (\<forall>i<length s. same_up_to_case U (s ! i) (r ! i))))"
  using same_case_walk [of s U True]
  by (auto simp add: to_sentence_case_walk list_all2_conv_all_nth)

theorem to_sentence_case_same_length_witness:
  "to_sentence_case py_db (Some (ustr ''hello. world'')) = Inr (ustr ''Hello. World'')
   \<and> length (ustr ''Hello. World'') = length (ustr ''hello. world'')"
proof -
  have h: "\<forall>c\<in>set (ustr ''hello. world''). isalpha py_db c \<longrightarrow> single_case py_db c"
    by (simp add: ustr_def single_case_def py_lower_ch_def py_upper_ch_def)
  have v: "to_sentence_case py_db (Some (ustr ''hello. world'')) = Inr (ustr ''Hello. World'')"
    by (simp add: to_sentence_case_walk lower_alpha_def py_isalpha_def py_lower_ch_def
      py_upper_ch_def ustr_def)
  from to_sentence_case_same_length [of py_db "ustr ''hello. world''"] v h show ?thesis
    by (simp add: ustr_def)
qed

text \<open>
  The claim as stated fails at the one-character string U+00DF: the result SS is
  two characters long.
\<close>

theorem to_sentence_case_longer:
  "to_sentence_case py_db (Some [223]) = Inr [83, 83] \<and> length [83, 83 :: nat] \<noteq> length [223 :: nat]"
  by (simp add: sentence_case_eszett)

section \<open>Sentence case as described\<close>

lemma sentence_start_Nil [simp]: "sentence_start U [] = True"
  by (simp add: sentence_start_def)

lemma sentence_start_snoc:
  assumes "\<forall>m. [m] \<in> set clause_marks \<longrightarrow> \<not> isalpha U m"
  shows "sentence_start U (pre @ [p]) =
     (if sentence_start U pre \<and> isalpha U p then False
      else if [p] \<in> set clause_marks then True
      else sentence_start U pre)"
  using assms by (auto simp add: sentence_start_def simp del: in_clause_marks)

lemma flag_walk_length [simp]: "length (flag_walk U cap xs) = length xs"
  by (induction xs arbitrary: cap) (simp_all del: in_clause_marks)

lemma flag_walk_nth:
  assumes "\<forall>m. [m] \<in> set clause_marks \<longrightarrow> \<not> isalpha U m"
  shows "flag_walk U (sentence_start U pre0) (pre @ x # post) ! length pre =
     (if isalpha U x \<and> sentence_start U (pre0 @ pre) then upper_ch U x else [x])"
proof (induction pre arbitrary: pre0)
  case Nil
  show ?case by (simp del: in_clause_marks)
next
  case (Cons p pre)
  have "flag_walk U (sentence_start U pre0) ((p # pre) @ x # post) ! length (p # pre)
      = flag_walk U (sentence_start U (pre0 @ [p])) (pre @ x # post) ! length pre"
    by (simp add: sentence_start_snoc [OF assms] del: in_clause_marks)
  also have "\<dots> = (if isalpha U x \<and> sentence_start U ((pre0 @ [p]) @ pre)
                    then upper_ch U x else [x])"
    by (rule Cons.IH)
  finally show ?case by simp
qed

text \<open>
  Claim C4. \<open>to_sentence_case\<close> raises on no input, \<open>None\<close> and the empty
  string give the empty string, and the result is what the flag automaton makes of
  the string with every letter lower-cased: one slot per character of that string,
  where a slot holds the upper case of its character when the character is the first
  letter of the string or the first letter after a clause mark \<open>.\<close>, \<open>!\<close>,
  \<open>?\<close> or \<open>:\<close>, and the character itself otherwise (clause marks are not
  letters). The three examples of the description are evaluated.
\<close>

theorem to_sentence_case_spec:
  "to_sentence_case U None = Inr []
   \<and> to_sentence_case U text
       = Inr (concat (flag_walk U True (lower_alpha U (or_empty text))))
   \<and> length (flag_walk U True (lower_alpha U (or_empty text)))
       = length (lower_alpha U (or_empty text))
   \<and> ((\<forall>m. [m] \<in> set clause_marks \<longrightarrow> \<not> isalpha U m)
        \<and> lower_alpha U (or_empty text) = pre @ x # post \<longrightarrow>
       flag_walk U True (lower_alpha U (or_empty text)) ! length pre
         = (if isalpha U x \<and> sentence_start U pre then upper_ch U x else [x]))
   \<and> to_sentence_case py_db (Some (ustr '''')) = Inr (ustr '''')
   \<and> to_sentence_case py_db (Some (ustr ''hello. world'')) = Inr (ustr ''Hello. World'')
   \<and> to_sentence_case py_db (Some (ustr ''a b: c'')) = Inr (ustr ''A b: C'')"
proof -
  have pos: "flag_walk U True (lower_alpha U (or_empty text)) ! length pre
         = (if isalpha U x \<and> sentence_start U pre then upper_ch U x else [x])"
    if "\<forall>m. [m] \<in> set clause_marks \<longrightarrow> \<not> isalpha U m"
      and "lower_alpha U (or_empty text) = pre @ x # post"
    using flag_walk_nth [OF that(1), of "[]" pre x post] that(2) by simp
  have ex: "to_sentence_case py_db (Some (ustr '''')) = Inr (ustr '''')"
    "to_sentence_case py_db (Some (ustr ''hello. world'')) = Inr (ustr ''Hello. World'')"
    "to_sentence_case py_db (Some (ustr ''a b: c'')) = Inr (ustr ''A b: C'')"
    by (simp_all add: to_sentence_case_walk lower_alpha_def py_isalpha_def py_lower_ch_def
        py_upper_ch_def ustr_def)
  have none: "to_sentence_case U None = Inr []"
    by (simp add: to_sentence_case_walk)
  show ?thesis
    using pos ex none by (simp add: to_sentence_case_walk del: in_clause_marks)
qed

theorem to_sentence_case_spec_witness:
  "lower_alpha py_db (or_empty (Some (ustr ''Hi. yOU''))) = ustr ''hi. '' @ 121 # ustr ''ou''
   \<and> sentence_start py_db (ustr ''hi. '')
   \<and> flag_walk py_db True (ustr ''hi. you'') ! 4 = [89]
   \<and> to_sentence_case py_db (Some (ustr ''Hi. yOU'')) = Inr (ustr ''Hi. You'')"
proof -
  have m: "\<forall>m. [m] \<in> set clause_marks \<longrightarrow> \<not> isalpha py_db m"
    by (simp add: py_isalpha_def)
  have l: "lower_alpha py_db (or_empty (Some (ustr ''Hi. yOU''))) = ustr ''hi. '' @ 121 # ustr ''ou''"
    by (simp add: lower_alpha_def py_isalpha_def py_lower_ch_def ustr_def)
  have s: "sentence_start py_db (ustr ''hi. '')"
    by (simp add: sentence_start_def py_isalpha_def ustr_def)
  have u: "ustr ''hi. '' @ 121 # ustr ''ou'' = ustr ''hi. you''" "length (ustr ''hi. '') = 4"
    by (simp_all add: ustr_def)
  from to_sentence_case_spec [of py_db "Some (ustr ''Hi. yOU'')" "ustr ''hi. ''" 121 "ustr ''ou''"]
  have "flag_walk py_db True (lower_alpha py_db (or_empty (Some (ustr ''Hi. yOU'')))) ! length (ustr ''hi. '')
         = (if isalpha py_db 121 \<and> sentence_start py_db (ustr ''hi. '') then upper_ch py_db 121 else [121])"
    and "to_sentence_case py_db (Some (ustr ''Hi. yOU''))
       = Inr (concat (flag_walk py_db True (lower_alpha py_db (or_empty (Some (ustr ''Hi. yOU''))))))"
    using m l by blast+
  then show ?thesis
    using m l s u
    by (simp add: py_isalpha_def py_upper_ch_def) (simp add: ustr_def py_isalpha_def py_upper_ch_def)
qed

section \<open>Classification\<close>

lemma startswith_iff: "startswith s p \<longleftrightarrow> (\<exists>post. s = p @ post)"
  unfolding startswith_def
  by (metis append_eq_conv_conj append_take_drop_id)

lemma contains_iff: "contains sub s \<longleftrightarrow> (\<exists>pre post. s = pre @ sub @ post)"
proof (induction s)
  case Nil
  show ?case by auto
next
  case (Cons c cs)
  show ?case
  proof
    assume "contains sub (c # cs)"
    then consider "startswith (c # cs) sub" | "contains sub cs" by auto
    then show "\<exists>pre post. c # cs = pre @ sub @ post"
    proof cases
      case 1
      then obtain post where "c # cs = sub @ post" by (auto simp add: startswith_iff)
      then have "c # cs = [] @ sub @ post" by simp
      then show ?thesis by blast
    next
      case 2
      with Cons.IH obtain pre post where "cs = pre @ sub @ post" by auto
      then have "c # cs = (c # pre) @ sub @ post" by simp
      then show ?thesis by blast
    qed
  next
    assume "\<exists>pre post. c # cs = pre @ sub @ post"
    then obtain pre post where e: "c # cs = pre @ sub @ post" by auto
    show "contains sub (c # cs)"
    proof (cases pre)
      case Nil
      with e have "startswith (c # cs) sub" by (simp add: startswith_iff)
      then show ?thesis by simp
    next
      case (Cons a pre')
      with e have "cs = pre' @ sub @ post" by simp
      with Cons.IH show ?thesis by auto
    qed
  qed
qed

lemma first_rule_eq:
  "first_rule l =
     (if contains (ustr ''heading 2'') l \<or> l = ustr ''h2'' then 1
      else if contains (ustr ''heading 3'') l \<or> l = ustr ''h3'' then 2
      else if contains (ustr ''heading 4'') l \<or> l = ustr ''h4'' then 3
      else if contains (ustr ''heading 5'') l \<or> l = ustr ''h5'' then 4
      else 0)"
  by (simp add: first_rule_def heading_rules_def)

lemma classify_examples:
  "guess_heading_level py_db (Some (ustr ''Heading 2'')) (Some (ustr ''Title'')) = 1"
  "guess_heading_level py_db (Some (ustr ''heading 5'')) (Some (ustr ''x'')) = 4"
  "guess_heading_level py_db (Some (ustr ''Normal'')) (Some (ustr ''text'')) = 0"
  by (simp_all add: guess_heading_level_def Let_def strip_def rstrip_def py_isspace_def
      ustr_def py_lower_ch_def startswith_def)

text \<open>
  Claim C6, amended. \<open>guess_heading_level\<close> returns 0 (none) when the trimmed text
  is empty, whatever the label. Otherwise the label is lower-cased and trimmed of
  surrounding whitespace, and the result is the level of the first rule, in the
  order H2, H3, H4, H5, whose marker the label contains or whose short name it
  equals, and 0 when there is none. On a label without surrounding whitespace this
  is the classification by the lower-cased label as it is.
\<close>

theorem guess_heading_level_rules:
  "guess_heading_level U styleLabel text =
     (if strip U (or_empty text) = [] then 0
      else first_rule (strip U (lower_str U (or_empty styleLabel))))
   \<and> (strip U (lower_str U label) = lower_str U label \<longrightarrow>
        guess_heading_level U (Some label) (Some t) = spec_classify U label t)
   \<and> guess_heading_level py_db (Some (ustr ''Heading 2'')) (Some (ustr ''Title'')) = 1
   \<and> guess_heading_level py_db (Some (ustr ''heading 5'')) (Some (ustr ''x'')) = 4
   \<and> guess_heading_level py_db (Some (ustr ''Normal'')) (Some (ustr ''text'')) = 0"
  by (simp add: classify_examples) (simp add: guess_heading_level_def first_rule_eq spec_classify_def Let_def)

theorem guess_heading_level_rules_witness:
  "strip py_db (lower_str py_db (ustr ''My Heading 3'')) = lower_str py_db (ustr ''My Heading 3'')
   \<and> guess_heading_level py_db (Some (ustr ''My Heading 3'')) (Some (ustr ''x'')) = 2
   \<and> spec_classify py_db (ustr ''My Heading 3'') (ustr ''x'') = 2"
proof -
  have h: "strip py_db (lower_str py_db (ustr ''My Heading 3'')) = lower_str py_db (ustr ''My Heading 3'')"
    by (simp add: strip_def rstrip_def py_isspace_def ustr_def py_lower_ch_def)
  have v: "guess_heading_level py_db (Some (ustr ''My Heading 3'')) (Some (ustr ''x'')) = 2"
    by (simp add: guess_heading_level_def Let_def strip_def rstrip_def py_isspace_def
      ustr_def py_lower_ch_def startswith_def)
  from guess_heading_level_rules [of py_db "Some (ustr ''My Heading 3'')" "Some (ustr ''x'')"
      "ustr ''My Heading 3''" "ustr ''x''"] h v
  show ?thesis by simp
qed

text \<open>
  The claim as stated fails at the label " H2" (a space, then H2): it does not
  contain a marker and is not equal to h2 in any letter case, so it is one of the
  other labels, yet the function trims it and returns level 1 (H2).
\<close>

theorem guess_heading_level_trims_label:
  "guess_heading_level py_db (Some (ustr '' H2'')) (Some (ustr ''x'')) = 1
   \<and> spec_classify py_db (ustr '' H2'') (ustr ''x'') = 0"
  by (simp add: guess_heading_level_def spec_classify_def first_rule_eq Let_def strip_def
      rstrip_def py_isspace_def ustr_def py_lower_ch_def startswith_def)

section \<open>The output name\<close>

lemma rfind_snoc: "rfind (p @ [x]) c = (if x = c then int (length p) else rfind p c)"
proof -
  have "filter (\<lambda>i. (p @ [x]) ! i = c) (rev [0..<length p])
      = filter (\<lambda>i. p ! i = c) (rev [0..<length p])"
    by (rule filter_cong) (auto simp add: nth_append)
  then show ?thesis
    by (simp add: rfind_def)
qed

lemma rfind_Nil [simp]: "rfind [] c = - 1"
  by (simp add: rfind_def)

lemma rfind_cases:
  "(rfind p c = - 1 \<and> c \<notin> set p) \<or>
   (\<exists>pre post. p = pre @ c # post \<and> c \<notin> set post \<and> rfind p c = int (length pre))"
proof (induction p rule: rev_induct)
  case Nil
  show ?case by simp
next
  case (snoc x p)
  show ?case
  proof (cases "x = c")
    case True
    then have "p @ [x] = p @ c # []" "c \<notin> set []" "rfind (p @ [x]) c = int (length p)"
      by (simp_all add: rfind_snoc)
    then show ?thesis by blast
  next
    case False
    from snoc consider "rfind p c = - 1" "c \<notin> set p"
      | pre post where "p = pre @ c # post" "c \<notin> set post" "rfind p c = int (length pre)"
      by blast
    then show ?thesis
    proof cases
      case 1
      with False show ?thesis by (simp add: rfind_snoc)
    next
      case 2
      have "rfind (p @ [x]) c = int (length pre)"
        using False 2(3) by (simp add: rfind_snoc)
      moreover have "p @ [x] = pre @ c # (post @ [x])" "c \<notin> set (post @ [x])"
        using False 2(1,2) by simp_all
      ultimately show ?thesis by blast
    qed
  qed
qed

text \<open>
  What \<open>splitext_root\<close> cuts off is empty, or a dot followed by characters that
  are neither a dot nor a separator.
\<close>

lemma splitext_root_prefix:
  "\<exists>ext. p = splitext_root p @ ext \<and>
     (ext = [] \<or> (\<exists>e. ext = 46 # e \<and> 46 \<notin> set e \<and> 47 \<notin> set e))"
proof (cases "splitext_root p = p")
  case True
  then show ?thesis by simp
next
  case False
  then have cut: "rfind p 46 > rfind p 47" "splitext_root p = take (nat (rfind p 46)) p"
    by (auto simp add: splitext_root_def Let_def split: if_splits)
  from rfind_cases [of p 46] cut(1) obtain pre post where
    d: "p = pre @ 46 # post" "46 \<notin> set post" "rfind p 46 = int (length pre)"
    using rfind_cases [of p 47] by fastforce
  have "47 \<notin> set post"
  proof
    assume in_post: "47 \<in> set post"
    then have "47 \<in> set p" using d(1) by simp
    with rfind_cases [of p 47] obtain pre' post' where
      f: "p = pre' @ 47 # post'" "47 \<notin> set post'" "rfind p 47 = int (length pre')"
      by auto
    have "length pre' < length pre" using f(3) d(3) cut(1) by simp
    then have "set (drop (Suc (length pre)) p) \<subseteq> set (drop (Suc (length pre')) p)"
      by (simp add: set_drop_subset_set_drop)
    moreover have "drop (Suc (length pre)) p = post"
      by (subst d(1)) simp
    moreover have "drop (Suc (length pre')) p = post'"
      by (subst f(1)) simp
    ultimately show False using in_post f(2) by auto
  qed
  with d cut show ?thesis by simp
qed

lemma str_upper_single_map:
  "\<forall>c\<in>set s. length (upper_ch U c) = 1 \<Longrightarrow> str_upper U s = map (\<lambda>c. hd (upper_ch U c)) s"
proof (induction s)
  case Nil
  show ?case by (simp add: str_upper_def)
next
  case (Cons c s)
  then obtain u where "upper_ch U c = [u]"
    by (auto simp add: length_Suc_conv)
  with Cons show ?case by (simp add: str_upper_def)
qed

text \<open>
  Claim C8. The output name is derived from the file name without its extension,
  trimmed on the right: when the upper-cased base name ends in INPUT, the base name
  without its last five characters, followed by OUTPUT; otherwise the base name
  followed by _OUTPUT; the extension .docx is then appended. Where upper-casing maps
  every character of the base name to one character, the five characters taken off
  are those that upper-case to INPUT.
\<close>

theorem out_name_derivation:
  "out_name U uploaded_name =
     (if endswith (str_upper U (rstrip U (splitext_root uploaded_name))) (ustr ''INPUT'')
      then take (length (rstrip U (splitext_root uploaded_name)) - 5)
             (rstrip U (splitext_root uploaded_name)) @ ustr ''OUTPUT'' @ ustr ''.docx''
      else rstrip U (splitext_root uploaded_name) @ ustr ''_OUTPUT'' @ ustr ''.docx'')
   \<and> (endswith (str_upper U (rstrip U (splitext_root uploaded_name))) (ustr ''INPUT'')
        \<and> (\<forall>c\<in>set (rstrip U (splitext_root uploaded_name)). length (upper_ch U c) = 1)
      \<longrightarrow> 5 \<le> length (rstrip U (splitext_root uploaded_name))
        \<and> str_upper U (drop (length (rstrip U (splitext_root uploaded_name)) - 5)
             (rstrip U (splitext_root uploaded_name))) = ustr ''INPUT'')"
proof -
  let ?b = "rstrip U (splitext_root uploaded_name)"
  have a: "out_name U uploaded_name =
     (if endswith (str_upper U ?b) (ustr ''INPUT'')
      then take (length ?b - 5) ?b @ ustr ''OUTPUT'' @ ustr ''.docx''
      else ?b @ ustr ''_OUTPUT'' @ ustr ''.docx'')"
    by (simp add: out_name_def Let_def ustr_def)
  have b: "5 \<le> length ?b \<and> str_upper U (drop (length ?b - 5) ?b) = ustr ''INPUT''"
    if e: "endswith (str_upper U ?b) (ustr ''INPUT'')"
      and s: "\<forall>c\<in>set ?b. length (upper_ch U c) = 1"
  proof -
    have m: "str_upper U ?b = map (\<lambda>c. hd (upper_ch U c)) ?b"
      using s by (rule str_upper_single_map)
    have "\<forall>c\<in>set (drop (length ?b - 5) ?b). length (upper_ch U c) = 1"
      using s by (meson in_set_dropD)
    then have "str_upper U (drop (length ?b - 5) ?b)
        = map (\<lambda>c. hd (upper_ch U c)) (drop (length ?b - 5) ?b)"
      by (rule str_upper_single_map)
    then have d: "str_upper U (drop (length ?b - 5) ?b) = drop (length ?b - 5) (str_upper U ?b)"
      by (simp only: m drop_map)
    have len: "length (ustr ''INPUT'') = 5" "length (str_upper U ?b) = length ?b"
      by (simp_all add: ustr_def m)
    from e have "5 \<le> length ?b" "drop (length ?b - 5) (str_upper U ?b) = ustr ''INPUT''"
      unfolding endswith_def len by simp_all
    with d show ?thesis by simp
  qed
  from a b show ?thesis by blast
qed

theorem out_name_derivation_witness:
  "endswith (str_upper py_db (rstrip py_db (splitext_root (ustr ''q3 input .docx'')))) (ustr ''INPUT'')
   \<and> out_name py_db (ustr ''q3 input .docx'') = ustr ''q3 OUTPUT.docx''
   \<and> out_name py_db (ustr ''notes.v2.docx'') = ustr ''notes.v2_OUTPUT.docx''"
proof -
  have r: "splitext_root (ustr ''q3 input .docx'') = ustr ''q3 input ''"
    "splitext_root (ustr ''notes.v2.docx'') = ustr ''notes.v2''"
    by (simp_all add: splitext_root_def rfind_def ustr_def Let_def)
  have t: "rstrip py_db (ustr ''q3 input '') = ustr ''q3 input''"
    "rstrip py_db (ustr ''notes.v2'') = ustr ''notes.v2''"
    by (simp_all add: rstrip_def py_isspace_def ustr_def)
  have u: "str_upper py_db (ustr ''q3 input'') = ustr ''Q3 INPUT''"
    "str_upper py_db (ustr ''notes.v2'') = ustr ''NOTES.V2''"
    by (simp_all add: str_upper_def py_upper_ch_def ustr_def)
  have e: "endswith (ustr ''Q3 INPUT'') (ustr ''INPUT'')" "\<not> endswith (ustr ''NOTES.V2'') (ustr ''INPUT'')"
    by (simp_all add: endswith_def ustr_def)
  have s: "\<forall>c\<in>set (ustr ''q3 input''). length (upper_ch py_db c) = 1"
    by (simp add: ustr_def py_upper_ch_def)
  from out_name_derivation [of py_db "ustr ''q3 input .docx''"]
    out_name_derivation [of py_db "ustr ''notes.v2.docx''"] r t u e s
  show ?thesis by (simp add: ustr_def)
qed

end
